theory Spec2Isabelle
  imports Main "HOL-Library.List_Lexorder" "HOL-Library.Code_Target_Nat"
begin

section \<open>Text\<close>

text \<open>
  A Python \<open>str\<close> is a sequence of code points; it is modelled as a list of natural
  numbers. The order of lists is the lexicographic one, by which Python compares
  strings. Literals are written as Isabelle strings and converted.
\<close>

type_synonym str = "nat list"

definition cp :: "char \<Rightarrow> nat" where
  "cp c = of_char c"

definition str :: "string \<Rightarrow> str" where
  "str s = map cp s"

definition newline :: nat where
  "newline = cp (CHR 0x0A)"

text \<open>An exception that ends the run or, inside the pool builder, skips a page.\<close>

datatype error = Request_error | EOFError | ValueError

text \<open>
  The methods of Python's strings that rest on the character database of the interpreter
  are parameters of the model: \<open>s.lower()\<close>, \<open>s.isdigit()\<close> and \<open>int(s)\<close>, which returns
  an integer or raises \<open>ValueError\<close>. What is proved below holds for every such library;
  where a property of the library is needed, it is a hypothesis. Lower-casing can change
  the length of a string, a string of digits need not have a decimal value, and \<open>int\<close>
  refuses a string of more digits than the interpreter's limit.
\<close>

record python =
  str_lower :: "str \<Rightarrow> str"
  str_isdigit :: "str \<Rightarrow> bool"
  str_int :: "str \<Rightarrow> error + int"

text \<open>\<open>s.strip(chars)\<close>: leading and trailing characters of \<open>chars\<close> removed.\<close>

definition strip :: "str \<Rightarrow> str \<Rightarrow> str" where
  "strip chars s =
     rev (dropWhile (\<lambda>c. c \<in> set chars) (rev (dropWhile (\<lambda>c. c \<in> set chars) s)))"

text \<open>
  A letter of a pattern compiled with \<open>re.IGNORECASE\<close>, for a pattern character \<open>p\<close>
  that is a lower-case letter \<open>a\<close> to \<open>z\<close> or a space: it matches itself, its capital,
  and for \<open>s\<close>, \<open>i\<close> and \<open>k\<close> also the long s (\<open>0x17F\<close>), the dotted capital and the
  dotless small i (\<open>0x130\<close>, \<open>0x131\<close>) and the Kelvin sign (\<open>0x212A\<close>).
\<close>

definition nocase_eq :: "nat \<Rightarrow> nat \<Rightarrow> bool" where
  "nocase_eq p c =
     (c = p
      \<or> (cp (CHR ''a'') \<le> p \<and> p \<le> cp (CHR ''z'') \<and> c + 32 = p)
      \<or> (p = cp (CHR ''s'') \<and> c = 0x17F)
      \<or> (p = cp (CHR ''i'') \<and> (c = 0x130 \<or> c = 0x131))
      \<or> (p = cp (CHR ''k'') \<and> c = 0x212A))"

subsection \<open>The pattern of \<open>clean_text\<close>\<close>

text \<open>
  The regular expression \<open>\[.*?\]|\(.*?see.*?\)\<close> with \<open>re.IGNORECASE\<close>. A matcher is
  anchored at the head of its argument and returns what follows the match. The dot
  matches every character but the newline; a lazy star first tries what follows it and
  only then consumes one more character.
\<close>

text \<open>\<open>.*?x\<close> for a literal character \<open>x\<close> other than the newline.\<close>

fun lazy_until :: "nat \<Rightarrow> str \<Rightarrow> str option" where
  "lazy_until x [] = None"
| "lazy_until x (c # cs) =
     (if c = x then Some cs else if c = newline then None else lazy_until x cs)"

text \<open>The literal \<open>see\<close>, letters compared without case.\<close>

fun lit_see :: "str \<Rightarrow> str option" where
  "lit_see (a # b # c # rest) =
     (if nocase_eq (cp (CHR ''s'')) a \<and> nocase_eq (cp (CHR ''e'')) b
         \<and> nocase_eq (cp (CHR ''e'')) c
      then Some rest else None)"
| "lit_see _ = None"

text \<open>\<open>.*?see.*?\)\<close>\<close>

fun lazy_see_note :: "str \<Rightarrow> str option" where
  "lazy_see_note [] = None"
| "lazy_see_note (c # cs) =
     (case Option.bind (lit_see (c # cs)) (lazy_until (cp (CHR '')''))) of
        Some rest \<Rightarrow> Some rest
      | None \<Rightarrow> if c = newline then None else lazy_see_note cs)"

text \<open>\<open>\[.*?\]\<close>\<close>

fun match_citation :: "str \<Rightarrow> str option" where
  "match_citation [] = None"
| "match_citation (c # cs) =
     (if c = cp (CHR ''['') then lazy_until (cp (CHR '']'')) cs else None)"

text \<open>\<open>\(.*?see.*?\)\<close>\<close>

fun match_see_note :: "str \<Rightarrow> str option" where
  "match_see_note [] = None"
| "match_see_note (c # cs) = (if c = cp (CHR ''('') then lazy_see_note cs else None)"

text \<open>The alternation: the first alternative that matches wins.\<close>

definition match_noise :: "str \<Rightarrow> str option" where
  "match_noise s =
     (case match_citation s of Some rest \<Rightarrow> Some rest | None \<Rightarrow> match_see_note s)"

text \<open>\<open>re.search\<close>: does the pattern match at some position?\<close>

fun re_search :: "(str \<Rightarrow> str option) \<Rightarrow> str \<Rightarrow> bool" where
  "re_search m [] = (m [] \<noteq> None)"
| "re_search m (c # cs) = (m (c # cs) \<noteq> None \<or> re_search m cs)"

lemma lazy_until_shorter: "lazy_until x s = Some rest \<Longrightarrow> length rest < length s"
  by (induction s) (auto split: if_splits)

lemma lit_see_shorter: "lit_see s = Some rest \<Longrightarrow> length rest < length s"
  by (cases s rule: lit_see.cases) (auto split: if_splits)

lemma lazy_see_note_shorter: "lazy_see_note s = Some rest \<Longrightarrow> length rest < length s"
proof (induction s)
  case Nil
  then show ?case by simp
next
  case (Cons c cs)
  show ?case
  proof (cases "Option.bind (lit_see (c # cs)) (lazy_until (cp (CHR '')'')))")
    case None
    with Cons show ?thesis by (auto split: if_splits)
  next
    case (Some r)
    then obtain mid where m: "lit_see (c # cs) = Some mid"
      and r: "lazy_until (cp (CHR '')'')) mid = Some r"
      by (auto simp: bind_eq_Some_conv)
    from Some Cons.prems have "r = rest" by simp
    with lit_see_shorter [OF m] lazy_until_shorter [OF r] show ?thesis by simp
  qed
qed

lemma match_noise_shorter: "match_noise s = Some rest \<Longrightarrow> length rest < length s"
  by (cases s)
    (auto simp: match_noise_def split: option.splits if_splits
      dest!: lazy_until_shorter lazy_see_note_shorter)

text \<open>
  \<open>re.sub(pattern, "", txt)\<close>: the text is scanned from the left; where the pattern
  matches, the match is dropped and the scan goes on behind it, elsewhere the character
  is kept. (No match of this pattern is empty.)
\<close>

function re_sub_noise :: "str \<Rightarrow> str" where
  "re_sub_noise [] = []"
| "re_sub_noise (c # cs) =
     (case match_noise (c # cs) of
        Some rest \<Rightarrow> re_sub_noise rest
      | None \<Rightarrow> c # re_sub_noise cs)"
  by pat_completeness auto
termination
  by (relation "measure length") (auto dest: match_noise_shorter)

text \<open>\<open>clean_text\<close>: the substitution, then \<open>strip(" .\n\t;")\<close>.\<close>

definition clean_text :: "str \<Rightarrow> str" where
  "clean_text txt =
     strip [cp (CHR '' ''), cp (CHR ''.''), cp (CHR 0x0A), cp (CHR 0x09), cp (CHR '';'')]
       (re_sub_noise txt)"

subsection \<open>The symptom extractor\<close>

text \<open>
  What the extractor reads of a page through the HTML parser: whether the page has an
  infobox table, whether the infobox has a header cell whose text contains
  \<open>Symptoms\<close>, whether that header has a sibling value cell, and of the value cell the
  text of each of its list items (\<open>li.get_text()\<close>, in document order) and its whole
  text with the separator \<open>;\<close> between its pieces (\<open>td.get_text(separator=";")\<close>).
\<close>

datatype html =
    No_infobox
  | No_symptoms_header
  | No_value_cell
  | Value_cell (li_texts: "str list") (cell_text: str)

text \<open>\<open>re.split(r"[;,]", raw)\<close>: the pieces between the separators, empty ones included.\<close>

fun re_split_semi_comma :: "str \<Rightarrow> str list" where
  "re_split_semi_comma [] = [[]]"
| "re_split_semi_comma (c # cs) =
     (if c = cp (CHR '';'') \<or> c = cp (CHR '','') then [] # re_split_semi_comma cs
      else (case re_split_semi_comma cs of
              p # ps \<Rightarrow> (c # p) # ps
            | [] \<Rightarrow> [[c]]))"

text \<open>A literal of lower-case letters and spaces matched at the head, without case.\<close>

definition starts_with_nocase :: "str \<Rightarrow> str \<Rightarrow> bool" where
  "starts_with_nocase lit t =
     (length lit \<le> length t \<and> list_all2 nocase_eq lit (take (length lit) t))"

text \<open>\<open>re.match(r"^(some cases|recurring|latent)", t, re.IGNORECASE)\<close>\<close>

definition boilerplate :: "str \<Rightarrow> bool" where
  "boilerplate t =
     (starts_with_nocase (str ''some cases'') t \<or> starts_with_nocase (str ''recurring'') t
      \<or> starts_with_nocase (str ''latent'') t)"

text \<open>
  \<open>list(dict.fromkeys(items))\<close>: a dictionary keeps its keys in the order of their
  first insertion.
\<close>

fun fromkeys :: "'a list \<Rightarrow> 'a list \<Rightarrow> 'a list" where
  "fromkeys keys [] = keys"
| "fromkeys keys (x # xs) = fromkeys (if x \<in> set keys then keys else keys @ [x]) xs"

text \<open>
  The length of the normalized text is tested, and then its lower-cased form is
  appended.
\<close>

definition extract_symptoms_from_infobox :: "python \<Rightarrow> html \<Rightarrow> str list" where
  "extract_symptoms_from_infobox py h =
     (case h of
        No_infobox \<Rightarrow> []
      | No_symptoms_header \<Rightarrow> []
      | No_value_cell \<Rightarrow> []
      | Value_cell lis raw \<Rightarrow>
          let items =
                [str_lower py t. t \<leftarrow> map clean_text lis, 3 \<le> length t \<and> length t \<le> 60];
              items =
                (if length items < 4
                 then items @
                   [str_lower py t. t \<leftarrow> map clean_text (re_split_semi_comma raw),
                      3 \<le> length t \<and> length t \<le> 60 \<and> \<not> boilerplate t]
                 else items)
          in fromkeys [] items)"

section \<open>The candidate pool\<close>

text \<open>A candidate is the dictionary \<open>{"name": title, "symptoms": syms}\<close>.\<close>

record candidate =
  name :: str
  symptoms :: "str list"

text \<open>
  The encyclopedia, which the program reaches over the network: the search request of
  \<open>search_candidate_diseases\<close> (the titles found for a query and a limit, or an
  exception), and \<open>fetch_page\<close> followed by the parser (the page as the extractor reads
  it, or an exception).
\<close>

record wiki =
  api_search :: "str \<Rightarrow> nat \<Rightarrow> error + str list"
  fetch_page :: "str \<Rightarrow> error + html"

text \<open>
  The loop over the titles: a page that cannot be fetched is skipped, every other page
  becomes a candidate, whatever its symptoms are.
\<close>

fun build_pool :: "python \<Rightarrow> wiki \<Rightarrow> str list \<Rightarrow> candidate list" where
  "build_pool py w [] = []"
| "build_pool py w (title # titles) =
     (case fetch_page w title of
        Inl e \<Rightarrow> build_pool py w titles
      | Inr page \<Rightarrow>
          \<lparr>name = title, symptoms = extract_symptoms_from_infobox py page\<rparr>
            # build_pool py w titles)"

definition search_candidate_diseases ::
    "python \<Rightarrow> wiki \<Rightarrow> str \<Rightarrow> nat \<Rightarrow> error + candidate list" where
  "search_candidate_diseases py w symptom limit =
     (case api_search w symptom limit of
        Inl e \<Rightarrow> Inl e
      | Inr titles \<Rightarrow> Inr (build_pool py w titles))"

section \<open>The narrowing loop\<close>

text \<open>What \<open>main\<close> prints, one constructor for each \<open>print\<close> of the source.\<close>

datatype msg =
    Banner
  | Final_diagnosis str
  | Unable_to_narrow "str list"
  | Checklist "str list"
  | Invalid_number str
  | No_pages str
  | Added_loaded str nat
  | Already_added str
  | Added_remain str nat
  | No_match "str list"
  | Blank_line
  | Final_shortlist "str list"

text \<open>The variables \<open>selected\<close> and \<open>remaining\<close> of \<open>main\<close>, and what it has printed.\<close>

record engine =
  selected :: "str list"
  remaining :: "candidate list"
  out :: "msg list"

definition say :: "msg \<Rightarrow> engine \<Rightarrow> engine" where
  "say m st = st\<lparr>out := out st @ [m]\<rparr>"

text \<open>
  How a run ends: by the first or the second termination condition, after the command
  \<open>done\<close> with one candidate or with another number of them, by \<open>sys.exit(1)\<close>, or by
  an exception that nothing catches.
\<close>

datatype verdict =
    Diagnosed str
  | Ambiguous "str list"
  | Done_diagnosed str
  | Done_shortlist "str list"
  | Exhausted
  | Raised error

datatype flow = Next | Stop verdict

text \<open>
  The checklist: \<open>sorted({s for d in remaining for s in d["symptoms"] if s not in selected})\<close>.
  Python compares strings by code points, as the lexicographic order on lists does.
\<close>

definition checklist :: "engine \<Rightarrow> str list" where
  "checklist st =
     sort (remdups [s. d \<leftarrow> remaining st, s \<leftarrow> symptoms d, s \<notin> set (selected st)])"

subsection \<open>Reading a line\<close>

text \<open>The white space of \<open>strip()\<close> and \<open>split()\<close>.\<close>

definition whitespace :: str where
  "whitespace =
     [0x09, 0x0A, 0x0B, 0x0C, 0x0D, 0x1C, 0x1D, 0x1E, 0x1F, 0x20, 0x85, 0xA0, 0x1680,
      0x2000, 0x2001, 0x2002, 0x2003, 0x2004, 0x2005, 0x2006, 0x2007, 0x2008, 0x2009,
      0x200A, 0x2028, 0x2029, 0x202F, 0x205F, 0x3000]"

definition isspace :: "nat \<Rightarrow> bool" where
  "isspace c = (c \<in> set whitespace)"

text \<open>\<open>s.split()\<close>: the maximal runs of characters that are not white space.\<close>

function split_ws :: "str \<Rightarrow> str list" where
  "split_ws s =
     (case dropWhile isspace s of
        [] \<Rightarrow> []
      | c # cs \<Rightarrow>
          (c # takeWhile (\<lambda>x. \<not> isspace x) cs) # split_ws (dropWhile (\<lambda>x. \<not> isspace x) cs))"
  by pat_completeness auto
termination
proof (relation "measure length")
  show "wf (measure length)" by simp
next
  fix s :: str and c cs
  assume "dropWhile isspace s = c # cs"
  then have "length (c # cs) \<le> length s"
    by (metis length_dropWhile_le)
  moreover have "length (dropWhile (\<lambda>x. \<not> isspace x) cs) \<le> length cs"
    by (rule length_dropWhile_le)
  ultimately show "(dropWhile (\<lambda>x. \<not> isspace x) cs, s) \<in> measure length" by simp
qed

text \<open>\<open>user_in.replace(",", " ").split()\<close>\<close>

definition tokens_of :: "str \<Rightarrow> str list" where
  "tokens_of user_in =
     split_ws (map (\<lambda>c. if c = cp (CHR '','') then cp (CHR '' '') else c) user_in)"

subsection \<open>One symptom\<close>

text \<open>
  The body of the loop over the tokens from the comment \<open>FIRST symptom\<close> on: the first
  symptom loads the pool, a symptom already selected is reported, any other symptom
  filters the pool. The limit of the search is the default of the source, 100.
\<close>

definition submit :: "python \<Rightarrow> wiki \<Rightarrow> engine \<Rightarrow> str \<Rightarrow> flow \<times> engine" where
  "submit py w st symptom =
     (if selected st = [] then
        (let st1 = st\<lparr>selected := selected st @ [symptom]\<rparr> in
         case search_candidate_diseases py w symptom 100 of
           Inl e \<Rightarrow> (Stop (Raised e), st1)
         | Inr pool \<Rightarrow>
             let st2 = st1\<lparr>remaining := pool\<rparr> in
             if pool = [] then (Stop Exhausted, say (No_pages symptom) st2)
             else (Next, say (Added_loaded symptom (length pool)) st2))
      else if symptom \<in> set (selected st) then (Next, say (Already_added symptom) st)
      else
        (let new_rem = filter (\<lambda>d. symptoms d = [] \<or> symptom \<in> set (symptoms d)) (remaining st);
             st1 = st\<lparr>selected := selected st @ [symptom], remaining := new_rem\<rparr>;
             st2 = say (Added_remain symptom (length new_rem)) st1
         in if new_rem = [] then (Stop Exhausted, say (No_match (selected st2)) st2)
            else (Next, st2)))"

text \<open>
  The head of the loop over the tokens, under the comment \<open>number \<rightarrow> symptom\<close>: a
  token of digits is an index into the checklist \<open>next_syms\<close> when a symptom has been
  selected and the checklist is not empty; an index out of range gives no symptom, and
  the \<open>ValueError\<close> of \<open>int(tok)\<close> is caught nowhere. Every other token is the symptom
  itself.
\<close>

definition resolve_token ::
    "python \<Rightarrow> str list \<Rightarrow> engine \<Rightarrow> str \<Rightarrow> error + str option" where
  "resolve_token py next_syms st tok =
     (if str_isdigit py tok \<and> selected st \<noteq> [] \<and> next_syms \<noteq> [] then
        (case str_int py tok of
           Inl e \<Rightarrow> Inl e
         | Inr n \<Rightarrow>
             let idx = n - 1 in
             if 0 \<le> idx \<and> idx < int (length next_syms) then Inr (Some (next_syms ! nat idx))
             else Inr None)
      else Inr (Some tok))"

text \<open>
  One token: an index out of range is reported and the loop goes on with the next token,
  a symptom is submitted.
\<close>

definition step_token ::
    "python \<Rightarrow> wiki \<Rightarrow> str list \<Rightarrow> engine \<Rightarrow> str \<Rightarrow> flow \<times> engine" where
  "step_token py w next_syms st tok =
     (case resolve_token py next_syms st tok of
        Inl e \<Rightarrow> (Stop (Raised e), st)
      | Inr None \<Rightarrow> (Next, say (Invalid_number tok) st)
      | Inr (Some symptom) \<Rightarrow> submit py w st symptom)"

text \<open>The loop \<open>for tok in tokens\<close>; \<open>next_syms\<close> is not assigned in it.\<close>

fun process_tokens ::
    "python \<Rightarrow> wiki \<Rightarrow> str list \<Rightarrow> engine \<Rightarrow> str list \<Rightarrow> flow \<times> engine" where
  "process_tokens py w next_syms st [] = (Next, st)"
| "process_tokens py w next_syms st (tok # toks) =
     (case step_token py w next_syms st tok of
        (Stop v, st') \<Rightarrow> (Stop v, st')
      | (Next, st') \<Rightarrow> process_tokens py w next_syms st' toks)"

subsection \<open>The loop of \<open>main\<close>\<close>

text \<open>The termination conditions, checked at the head of each round.\<close>

definition termination_check :: "engine \<Rightarrow> (verdict \<times> engine) option" where
  "termination_check st =
     (let next_syms = checklist st in
      if length (remaining st) = 1 \<and> next_syms = [] \<and> selected st \<noteq> [] then
        Some (Diagnosed (name (remaining st ! 0)),
              say (Final_diagnosis (name (remaining st ! 0))) st)
      else if remaining st \<noteq> [] \<and> next_syms = [] \<and> selected st \<noteq> [] then
        Some (Ambiguous (map name (remaining st)),
              say (Unable_to_narrow (map name (remaining st))) st)
      else None)"

text \<open>The checklist is shown when a symptom has been selected and it is not empty.\<close>

definition show_checklist :: "engine \<Rightarrow> engine" where
  "show_checklist st =
     (if selected st \<noteq> [] \<and> checklist st \<noteq> [] then say (Checklist (checklist st)) st else st)"

text \<open>The code behind the loop, reached by \<open>break\<close> when the user types \<open>done\<close>.\<close>

definition finish :: "engine \<Rightarrow> verdict \<times> engine" where
  "finish st =
     (if length (remaining st) = 1 then
        (Done_diagnosed (name (remaining st ! 0)),
         say (Final_diagnosis (name (remaining st ! 0))) st)
      else (Done_shortlist (map name (remaining st)),
            say (Final_shortlist (map name (remaining st))) st))"

text \<open>
  The loop \<open>while True\<close>. The lines that \<open>input\<close> will return are the argument
  \<open>lines\<close>; when none is left, \<open>input\<close> raises \<open>EOFError\<close>. Each round computes the checklist
  once, before it reads its line, and hands it to the loop over the tokens.
\<close>

fun main_loop :: "python \<Rightarrow> wiki \<Rightarrow> str list \<Rightarrow> engine \<Rightarrow> verdict \<times> engine" where
  "main_loop py w [] st =
     (case termination_check st of
        Some r \<Rightarrow> r
      | None \<Rightarrow> (Raised EOFError, show_checklist st))"
| "main_loop py w (line # lines) st =
     (case termination_check st of
        Some r \<Rightarrow> r
      | None \<Rightarrow>
          let st1 = show_checklist st;
              user_in = str_lower py (strip whitespace line)
          in if user_in = str ''done'' then finish st1
             else (case process_tokens py w (checklist st) st1 (tokens_of user_in) of
                     (Stop v, st2) \<Rightarrow> (v, st2)
                   | (Next, st2) \<Rightarrow> main_loop py w lines (say Blank_line st2)))"

definition main :: "python \<Rightarrow> wiki \<Rightarrow> str list \<Rightarrow> verdict \<times> engine" where
  "main py w lines =
     main_loop py w lines (say Banner \<lparr>selected = [], remaining = [], out = []\<rparr>)"


section \<open>Examples and the retention property\<close>

text \<open>
  A library for the examples. It does what CPython 3.11 does on strings whose code
  points are below 256 or the dotted capital I (\<open>0x130\<close>): \<open>lower\<close> maps \<open>A\<close> to \<open>Z\<close> and
  the accented capitals \<open>0xC0\<close> to \<open>0xDE\<close> (but not the multiplication sign \<open>0xD7\<close>) to
  the code point 32 above, and the dotted capital I to the two code points \<open>0x69\<close>,
  \<open>0x307\<close>; the digits are \<open>0\<close> to \<open>9\<close> and the superscripts two, three and one;
  \<open>int\<close>, which the program applies to strings of digits only, gives the decimal
  value of at most 4300 digits \<open>0\<close> to \<open>9\<close> and raises \<open>ValueError\<close> for a longer
  string and for a superscript. Other code points have no case and are no digits here.
\<close>

definition upper_case :: "nat \<Rightarrow> bool" where
  "upper_case n = ((65 \<le> n \<and> n \<le> 90) \<or> (192 \<le> n \<and> n \<le> 222 \<and> n \<noteq> 215))"

definition lower_cp :: "nat \<Rightarrow> str" where
  "lower_cp c =
     (if c = 0x130 then [0x69, 0x307] else if upper_case c then [c + 32] else [c])"

definition lower_example :: "str \<Rightarrow> str" where
  "lower_example s = concat (map lower_cp s)"

definition isdigit_example :: "str \<Rightarrow> bool" where
  "isdigit_example s =
     (s \<noteq> [] \<and> list_all (\<lambda>c. (48 \<le> c \<and> c \<le> 57) \<or> c = 0xB2 \<or> c = 0xB3 \<or> c = 0xB9) s)"

fun decimal :: "int \<Rightarrow> str \<Rightarrow> int option" where
  "decimal acc [] = Some acc"
| "decimal acc (c # cs) =
     (if 48 \<le> c \<and> c \<le> 57 then decimal (10 * acc + (int c - 48)) cs else None)"

definition int_example :: "str \<Rightarrow> error + int" where
  "int_example s =
     (if s = [] \<or> 4300 < length s then Inl ValueError
      else case decimal 0 s of Some n \<Rightarrow> Inr n | None \<Rightarrow> Inl ValueError)"

definition python_example :: python where
  "python_example =
     \<lparr>str_lower = lower_example, str_isdigit = isdigit_example, str_int = int_example\<rparr>"


text \<open>
  An encyclopedia with four search results for \<open>fever\<close> and for \<open>chills\<close>: a page with
  a list of four symptoms, a page whose symptoms are prose, a page that cannot be fetched
  and a page without an infobox.
\<close>

definition wiki_example :: wiki where
  "wiki_example =
     \<lparr>api_search = (\<lambda>query limit.
        if query = str ''fever'' \<or> query = str ''chills''
        then Inr [str ''Flu'', str ''Measles'', str ''Gone'', str ''Stub''] else Inr []),
      fetch_page = (\<lambda>title.
        if title = str ''Flu''
        then Inr (Value_cell
                    [str ''Fever'', str ''Cough[1]'', str ''Headache'', str ''Fatigue'']
                    (str ''Fever;Cough[1];Headache;Fatigue''))
        else if title = str ''Measles''
        then Inr (Value_cell [] (str ''Fever, rash; cough (see below)''))
        else if title = str ''Stub'' then Inr No_infobox
        else Inl Request_error)\<rparr>"

text \<open>The state of the loop after the first symptom \<open>fever\<close>.\<close>

definition engine_example :: engine where
  "engine_example =
     \<lparr>selected = [str ''fever''],
      remaining =
        [\<lparr>name = str ''Flu'',
          symptoms = [str ''fever'', str ''cough'', str ''headache'', str ''fatigue'']\<rparr>,
         \<lparr>name = str ''Measles'', symptoms = [str ''fever'', str ''rash'', str ''cough'']\<rparr>,
         \<lparr>name = str ''Stub'', symptoms = []\<rparr>],
      out = []\<rparr>"

text \<open>Two states in which no unseen symptom is left: one candidate, and two.\<close>

definition engine_single :: engine where
  "engine_single =
     \<lparr>selected = [str ''fever'', str ''rash''],
      remaining = [\<lparr>name = str ''Measles'', symptoms = [str ''fever'', str ''rash'']\<rparr>],
      out = []\<rparr>"

definition engine_tied :: engine where
  "engine_tied =
     \<lparr>selected = [str ''fever'', str ''rash''],
      remaining = [\<lparr>name = str ''Measles'', symptoms = [str ''fever'', str ''rash'']\<rparr>,
                   \<lparr>name = str ''Stub'', symptoms = []\<rparr>],
      out = []\<rparr>"

text \<open>
  Every candidate of the pool has no symptoms at all, or has every selected symptom but
  the first.
\<close>

definition later_symptoms_kept :: "engine \<Rightarrow> bool" where
  "later_symptoms_kept st =
     (\<forall>c \<in> set (remaining st). symptoms c = [] \<or> set (tl (selected st)) \<subseteq> set (symptoms c))"

section \<open>Properties of the text functions\<close>


lemma rstrip_prefix: "\<exists>t. a = rev (dropWhile P (rev a)) @ t"
proof -
  have "rev a = takeWhile P (rev a) @ dropWhile P (rev a)" by simp
  then have "rev (rev a) = rev (takeWhile P (rev a) @ dropWhile P (rev a))" by (rule arg_cong)
  then have "a = rev (dropWhile P (rev a)) @ rev (takeWhile P (rev a))" by (simp only: rev_append rev_rev_ident)
  then show ?thesis by (rule exI)
qed

lemma strip_decomp: "\<exists>pre post. s = pre @ strip cs s @ post"
proof -
  define P where "P = (\<lambda>c. c \<in> set cs)"
  define a where "a = dropWhile P s"
  obtain t where t: "a = rev (dropWhile P (rev a)) @ t" using rstrip_prefix by blast
  have "s = takeWhile P s @ a" by (simp add: a_def)
  then have "s = takeWhile P s @ strip cs s @ t"
    using t unfolding strip_def a_def P_def by simp
  then show ?thesis by blast
qed

lemma length_strip_le: "length (strip cs s) \<le> length s"
proof -
  obtain pre post where "s = pre @ strip cs s @ post" using strip_decomp by blast
  then have "length s = length pre + length (strip cs s) + length post"
    by (metis length_append add.assoc)
  then show ?thesis by simp
qed

lemma strip_idem: "strip cs (strip cs s) = strip cs s"
proof -
  define P where "P = (\<lambda>c. c \<in> set cs)"
  define a where "a = dropWhile P s"
  define b where "b = rev (dropWhile P (rev a))"
  obtain t where t: "a = b @ t" using rstrip_prefix b_def by blast
  have "dropWhile P b = b"
  proof (cases "b = []")
    case True then show ?thesis by simp
  next
    case False
    then have "hd b = hd a" using t by simp
    moreover have "a \<noteq> []" using False t by simp
    then have "\<not> P (hd a)" unfolding a_def by (rule hd_dropWhile)
    ultimately show ?thesis using False by (simp add: dropWhile_eq_self_iff)
  qed
  moreover have "dropWhile P (rev b) = rev b"
    unfolding b_def by (simp add: dropWhile_eq_self_iff hd_dropWhile)
  ultimately have "rev (dropWhile P (rev (dropWhile P b))) = b" by simp
  then show ?thesis unfolding strip_def b_def a_def P_def .
qed


lemma re_sub_noise_id: "\<not> re_search match_noise s \<Longrightarrow> re_sub_noise s = s"
  by (induction s) (auto split: option.splits)

lemma length_re_sub_noise_le: "length (re_sub_noise s) \<le> length s"
proof (induction s rule: re_sub_noise.induct)
  case 1 show ?case by simp
next
  case (2 c cs)
  show ?case
  proof (cases "match_noise (c # cs)")
    case None with 2 show ?thesis by simp
  next
    case (Some rest)
    with 2 match_noise_shorter [OF Some] show ?thesis by simp
  qed
qed

lemma re_sub_noise_shorter: "re_search match_noise s \<Longrightarrow> length (re_sub_noise s) < length s"
proof (induction s)
  case Nil
  then show ?case by (simp add: match_noise_def)
next
  case (Cons c cs)
  show ?case
  proof (cases "match_noise (c # cs)")
    case None with Cons show ?thesis by simp
  next
    case (Some rest)
    with length_re_sub_noise_le [of rest] match_noise_shorter [OF Some] show ?thesis by simp
  qed
qed

lemma clean_text_idem_iff:
  "clean_text (clean_text x) = clean_text x \<longleftrightarrow> \<not> re_search match_noise (clean_text x)"
proof
  assume eq: "clean_text (clean_text x) = clean_text x"
  show "\<not> re_search match_noise (clean_text x)"
  proof
    assume "re_search match_noise (clean_text x)"
    then have "length (re_sub_noise (clean_text x)) < length (clean_text x)"
      by (rule re_sub_noise_shorter)
    moreover have "length (clean_text (clean_text x)) \<le> length (re_sub_noise (clean_text x))"
      unfolding clean_text_def [of "clean_text x"] by (rule length_strip_le)
    ultimately show False using eq by simp
  qed
next
  assume "\<not> re_search match_noise (clean_text x)"
  then have "re_sub_noise (clean_text x) = clean_text x" by (rule re_sub_noise_id)
  then show "clean_text (clean_text x) = clean_text x"
    unfolding clean_text_def [of "clean_text x"] by (simp add: clean_text_def strip_idem)
qed


lemma literal_not_newline:
  "cp (CHR ''['') \<noteq> newline" "cp (CHR '']'') \<noteq> newline"
  "cp (CHR ''('') \<noteq> newline" "cp (CHR '')'') \<noteq> newline"
  by (simp_all add: cp_def newline_def)

lemma lazy_until_decomp:
  "lazy_until x s = Some rest \<Longrightarrow> x \<noteq> newline \<Longrightarrow> \<exists>m. s = m @ rest \<and> newline \<notin> set m"
proof (induction s)
  case Nil
  then show ?case by simp
next
  case (Cons c cs)
  show ?case
  proof (cases "c = x")
    case True
    with Cons.prems have "c # cs = [c] @ rest \<and> newline \<notin> set [c]" by simp
    then show ?thesis by blast
  next
    case False
    with Cons.prems have nl: "c \<noteq> newline" and r: "lazy_until x cs = Some rest"
      by (auto split: if_splits)
    from Cons.IH [OF r Cons.prems(2)] obtain m where "cs = m @ rest" "newline \<notin> set m" by blast
    with nl have "c # cs = (c # m) @ rest \<and> newline \<notin> set (c # m)" by simp
    then show ?thesis by blast
  qed
qed

lemma nocase_eq_not_newline:
  "nocase_eq (cp (CHR ''s'')) a \<Longrightarrow> a \<noteq> newline"
  "nocase_eq (cp (CHR ''e'')) a \<Longrightarrow> a \<noteq> newline"
  by (auto simp: nocase_eq_def cp_def newline_def)

lemma lit_see_decomp:
  "lit_see s = Some rest \<Longrightarrow> \<exists>m. s = m @ rest \<and> newline \<notin> set m"
proof (cases s rule: lit_see.cases)
  case (1 a b c r)
  assume h: "lit_see s = Some rest"
  with 1 have e: "nocase_eq (cp (CHR ''s'')) a" "nocase_eq (cp (CHR ''e'')) b"
    "nocase_eq (cp (CHR ''e'')) c" "r = rest"
    by (auto split: if_splits)
  have "a \<noteq> newline" "b \<noteq> newline" "c \<noteq> newline"
    using e by (auto dest: nocase_eq_not_newline)
  with 1 e have "s = [a, b, c] @ rest \<and> newline \<notin> set [a, b, c]" by simp
  then show ?thesis by blast
qed simp_all

lemma lazy_see_note_decomp:
  "lazy_see_note s = Some rest \<Longrightarrow> \<exists>m. s = m @ rest \<and> newline \<notin> set m"
proof (induction s)
  case Nil
  then show ?case by simp
next
  case (Cons c cs)
  show ?case
  proof (cases "Option.bind (lit_see (c # cs)) (lazy_until (cp (CHR '')'')))")
    case (Some r)
    then obtain mid where m: "lit_see (c # cs) = Some mid" and r: "lazy_until (cp (CHR '')'')) mid = Some r"
      by (auto simp: bind_eq_Some_conv)
    from Some Cons.prems have "r = rest" by simp
    moreover obtain m1 where "c # cs = m1 @ mid" "newline \<notin> set m1"
      using lit_see_decomp [OF m] by blast
    moreover obtain m2 where "mid = m2 @ r" "newline \<notin> set m2"
      using lazy_until_decomp [OF r] by (auto simp: literal_not_newline)
    ultimately have "c # cs = (m1 @ m2) @ rest \<and> newline \<notin> set (m1 @ m2)" by simp
    then show ?thesis by blast
  next
    case None
    with Cons.prems have nl: "c \<noteq> newline" and r: "lazy_see_note cs = Some rest"
      by (auto split: if_splits)
    from Cons.IH [OF r] obtain m where "cs = m @ rest" "newline \<notin> set m" by blast
    with nl have "c # cs = (c # m) @ rest \<and> newline \<notin> set (c # m)" by simp
    then show ?thesis by blast
  qed
qed

lemma match_noise_decomp:
  assumes "match_noise s = Some rest"
  shows "\<exists>m. s = m @ rest \<and> newline \<notin> set m"
proof (cases s)
  case Nil
  with assms show ?thesis by (simp add: match_noise_def)
next
  case (Cons c cs)
  from assms Cons consider
      (cit) "c = cp (CHR ''['')" "lazy_until (cp (CHR '']'')) cs = Some rest"
    | (see) "c = cp (CHR ''('')" "lazy_see_note cs = Some rest"
    by (auto simp: match_noise_def split: option.splits if_splits)
  then obtain m where "cs = m @ rest" "newline \<notin> set m" "c \<noteq> newline"
  proof cases
    case cit
    then show ?thesis
      using lazy_until_decomp [of "cp (CHR '']'')" cs rest] that
      by (auto simp: literal_not_newline)
  next
    case see
    then show ?thesis
      using lazy_see_note_decomp [of cs rest] that by (auto simp: literal_not_newline)
  qed
  with Cons have "s = (c # m) @ rest \<and> newline \<notin> set (c # m)" by simp
  then show ?thesis by blast
qed

lemma lazy_until_skip:
  "newline \<notin> set m \<Longrightarrow> lazy_until x rest \<noteq> None \<Longrightarrow> lazy_until x (m @ rest) \<noteq> None"
  by (induction m) auto

lemma lazy_until_append:
  "lazy_until x a = Some r \<Longrightarrow> lazy_until x (a @ b) = Some (r @ b)"
  by (induction a) (auto split: if_splits)

lemma closes_re_sub_noise:
  "lazy_until x (re_sub_noise s) \<noteq> None \<Longrightarrow> lazy_until x s \<noteq> None"
proof (induction s rule: re_sub_noise.induct)
  case 1
  then show ?case by simp
next
  case (2 c cs)
  show ?case
  proof (cases "match_noise (c # cs)")
    case None
    with 2 show ?thesis by (auto split: if_splits)
  next
    case (Some rest)
    with 2 have "lazy_until x rest \<noteq> None" by simp
    moreover obtain m where "c # cs = m @ rest" "newline \<notin> set m"
      using match_noise_decomp [OF Some] by blast
    ultimately show ?thesis using lazy_until_skip [of m x rest] by simp
  qed
qed

lemma re_sub_noise_no_citation: "\<not> re_search match_citation (re_sub_noise s)"
proof (induction s rule: re_sub_noise.induct)
  case 1
  show ?case by simp
next
  case (2 c cs)
  show ?case
  proof (cases "match_noise (c # cs)")
    case (Some rest)
    with 2 show ?thesis by simp
  next
    case None
    then have "c = cp (CHR ''['') \<Longrightarrow> lazy_until (cp (CHR '']'')) cs = None"
      by (simp add: match_noise_def split: option.splits)
    then have "c = cp (CHR ''['') \<Longrightarrow> lazy_until (cp (CHR '']'')) (re_sub_noise cs) = None"
      using closes_re_sub_noise [of "cp (CHR '']'')" cs] by blast
    with None 2 show ?thesis by auto
  qed
qed

lemma re_search_citation_suffix:
  "re_search match_citation s \<Longrightarrow> re_search match_citation (pre @ s)"
  by (induction pre) auto

lemma match_citation_append:
  "match_citation a \<noteq> None \<Longrightarrow> match_citation (a @ b) \<noteq> None"
  by (cases a) (auto simp: lazy_until_append split: if_splits)

lemma re_search_citation_prefix:
  "re_search match_citation s \<Longrightarrow> re_search match_citation (s @ post)"
proof (induction s)
  case Nil
  then show ?case by simp
next
  case (Cons c cs)
  then show ?case using match_citation_append [of "c # cs" post] by auto
qed

lemma clean_text_no_citation: "\<not> re_search match_citation (clean_text x)"
proof
  assume a: "re_search match_citation (clean_text x)"
  obtain pre post where "re_sub_noise x = pre @ clean_text x @ post"
    unfolding clean_text_def using strip_decomp by blast
  then have "re_search match_citation (re_sub_noise x)"
    using a re_search_citation_prefix re_search_citation_suffix by metis
  then show False using re_sub_noise_no_citation by blast
qed

lemma re_search_noise:
  "re_search match_noise s = (re_search match_citation s \<or> re_search match_see_note s)"
  by (induction s) (auto simp: match_noise_def split: option.splits)

subsection \<open>The lower-casing of the example library\<close>









section \<open>Claims about the text functions\<close>




text \<open>
  Claim C2, as stated: \<open>clean_text (clean_text x) = clean_text x\<close> for every string
  \<open>x\<close>. It fails: one pass of the substitution removes the citation inside
  \<open>(s[x]ee)\<close> and leaves \<open>(see)\<close>, which the second pass removes.
\<close>

theorem clean_text_not_idempotent:
  "clean_text (clean_text (str ''(s[x]ee)'')) \<noteq> clean_text (str ''(s[x]ee)'')"
  by code_simp

text \<open>
  Claim C2, amended: \<open>clean_text (clean_text x) = clean_text x\<close> holds exactly for the
  strings \<open>x\<close> whose normalized text \<open>clean_text x\<close> contains no match of the
  \<open>see\<close>-parenthetical pattern (a bracketed citation never remains in it).
\<close>

theorem clean_text_idempotent_iff:
  "(clean_text (clean_text x) = clean_text x) = (\<not> re_search match_see_note (clean_text x))"
  by (simp add: clean_text_idem_iff re_search_noise clean_text_no_citation)

theorem clean_text_idempotent_iff_witness:
  "clean_text (clean_text (str ''Fever [1] (see text); ''))
     = clean_text (str ''Fever [1] (see text); '')
   \<and> clean_text (str ''Fever [1] (see text); '') = str ''Fever''"
proof -
  have c: "clean_text (str ''Fever [1] (see text); '') = str ''Fever''" by code_simp
  have "\<not> re_search match_see_note (str ''Fever'')" by code_simp
  then show ?thesis
    using clean_text_idempotent_iff [of "str ''Fever [1] (see text); ''"] unfolding c by simp
qed




section \<open>Properties of the narrowing loop\<close>

lemma say_fields:
  "selected (say m st) = selected st" "remaining (say m st) = remaining st"
  "out (say m st) = out st @ [m]"
  by (simp_all add: say_def)

lemma show_checklist_fields:
  "selected (show_checklist st) = selected st" "remaining (show_checklist st) = remaining st"
  by (simp_all add: show_checklist_def say_fields)

text \<open>
  A property of the state that printing does not change and that every submission of a
  symptom keeps is kept by a token, by a batch of tokens and by the whole loop.
\<close>

lemma step_token_keeps:
  assumes sub: "\<And>st symptom. P st \<Longrightarrow> P (snd (submit py w st symptom))"
    and pr: "\<And>st m. P st \<Longrightarrow> P (say m st)"
    and "P st"
  shows "P (snd (step_token py w ns st tok))"
  using assms(3) sub pr
  by (auto simp: step_token_def split: sum.splits option.splits)

lemma process_tokens_keeps:
  assumes sub: "\<And>st symptom. P st \<Longrightarrow> P (snd (submit py w st symptom))"
    and pr: "\<And>st m. P st \<Longrightarrow> P (say m st)"
    and "P st"
  shows "P (snd (process_tokens py w ns st toks))"
  using assms(3)
proof (induction toks arbitrary: st)
  case Nil
  then show ?case by simp
next
  case (Cons tok toks)
  have k: "P (snd (step_token py w ns st tok))"
    using sub pr Cons.prems by (rule step_token_keeps)
  show ?case
  proof (cases "step_token py w ns st tok")
    case (Pair f st')
    with k have p: "P st'" by simp
    show ?thesis
    proof (cases f)
      case Next
      with Pair Cons.IH [OF p] show ?thesis by simp
    next
      case (Stop v)
      with Pair p show ?thesis by simp
    qed
  qed
qed

lemma termination_check_keeps:
  assumes pr: "\<And>st m. P st \<Longrightarrow> P (say m st)"
    and "P st" and "termination_check st = Some r"
  shows "P (snd r)"
  using assms(2,3) pr
  by (auto simp: termination_check_def Let_def split: if_splits)

lemma main_loop_keeps:
  assumes sub: "\<And>st symptom. P st \<Longrightarrow> P (snd (submit py w st symptom))"
    and pr: "\<And>st m. P st \<Longrightarrow> P (say m st)"
    and "P st"
  shows "P (snd (main_loop py w lines st))"
  using assms(3)
proof (induction lines arbitrary: st)
  case Nil
  show ?case
  proof (cases "termination_check st")
    case None
    with Nil pr show ?thesis by (simp add: show_checklist_def)
  next
    case (Some r)
    with termination_check_keeps [of P st r] pr Nil show ?thesis by simp
  qed
next
  case (Cons line lines)
  show ?case
  proof (cases "termination_check st")
    case (Some r)
    with termination_check_keeps [of P st r] pr Cons.prems show ?thesis by simp
  next
    case None
    have s1: "P (show_checklist st)" using Cons.prems pr by (simp add: show_checklist_def)
    show ?thesis
    proof (cases "str_lower py (strip whitespace line) = str ''done''")
      case True
      with None s1 pr show ?thesis by (simp add: finish_def Let_def)
    next
      case False
      let ?r = "process_tokens py w (checklist st) (show_checklist st) (tokens_of (str_lower py (strip whitespace line)))"
      have k: "P (snd ?r)" using sub pr s1 by (rule process_tokens_keeps)
      show ?thesis
      proof (cases ?r)
        case (Pair f st2)
        with k have p2: "P st2" by simp
        show ?thesis
        proof (cases f)
          case Next
          have "P (say Blank_line st2)" using p2 by (rule pr)
          from Cons.IH [OF this] None False Pair Next show ?thesis by simp
        next
          case (Stop v)
          with None False Pair p2 show ?thesis by simp
        qed
      qed
    qed
  qed
qed

lemma submit_later_symptoms_kept:
  "later_symptoms_kept st \<Longrightarrow> later_symptoms_kept (snd (submit py w st symptom))"
  by (auto simp: submit_def later_symptoms_kept_def say_def Let_def split: sum.splits)

lemma say_later_symptoms_kept: "later_symptoms_kept st \<Longrightarrow> later_symptoms_kept (say m st)"
  by (simp add: later_symptoms_kept_def say_def)

lemma submit_pool_shrinks:
  assumes "selected st \<noteq> [] \<and> set (remaining st) \<subseteq> R \<and> length (remaining st) \<le> n"
  shows "selected (snd (submit py w st symptom)) \<noteq> []
         \<and> set (remaining (snd (submit py w st symptom))) \<subseteq> R
         \<and> length (remaining (snd (submit py w st symptom))) \<le> n"
proof -
  have "length (filter (\<lambda>d. symptoms d = [] \<or> symptom \<in> set (symptoms d)) (remaining st))
        \<le> length (remaining st)"
    by (rule length_filter_le)
  moreover from assms have "length (remaining st) \<le> n" by simp
  ultimately
  have "length (filter (\<lambda>d. symptoms d = [] \<or> symptom \<in> set (symptoms d)) (remaining st)) \<le> n"
    by (rule le_trans)
  with assms show ?thesis
    by (auto simp: submit_def say_def Let_def)
qed

lemma process_tokens_append:
  "process_tokens py w ns st (pre @ post) =
     (case process_tokens py w ns st pre of
        (Stop v, st') \<Rightarrow> (Stop v, st')
      | (Next, st') \<Rightarrow> process_tokens py w ns st' post)"
  by (induction pre arbitrary: st) (auto split: prod.splits flow.splits)

section \<open>Claims about the narrowing loop\<close>

text \<open>
  Claim C1, as stated: in every reachable state, every candidate of the pool has no
  symptoms or has every selected symptom. It fails after the first symptom: the pool is
  what the search returns for it, and a page is included whatever its infobox lists.
  After \<open>chills\<close> the pool holds a candidate with four symptoms, none of them \<open>chills\<close>.
\<close>

theorem seed_symptom_not_kept:
  "selected (snd (main python_example wiki_example [str ''chills''])) = [str ''chills'']
   \<and> remaining (snd (main python_example wiki_example [str ''chills'']))
       = [\<lparr>name = str ''Flu'',
           symptoms = [str ''fever'', str ''cough'', str ''headache'', str ''fatigue'']\<rparr>,
          \<lparr>name = str ''Measles'', symptoms = [str ''fever'', str ''rash'', str ''cough'']\<rparr>,
          \<lparr>name = str ''Stub'', symptoms = []\<rparr>]
   \<and> str ''chills'' \<notin> set [str ''fever'', str ''cough'', str ''headache'', str ''fatigue'']"
  by code_simp

text \<open>
  Claim C1, amended: in every reachable state, every candidate of the pool has no
  symptoms or has every selected symptom but the first. The property holds in the initial
  state, every token keeps it (whatever the checklist and the token are), and so it holds
  in the state in which a run of \<open>main\<close> ends, on every input. The input may end anywhere,
  so these final states are all the states a run passes through.
\<close>

theorem pool_keeps_later_symptoms:
  "later_symptoms_kept \<lparr>selected = [], remaining = [], out = ms\<rparr>
   \<and> (later_symptoms_kept st \<longrightarrow> later_symptoms_kept (snd (step_token py w ns st tok)))
   \<and> later_symptoms_kept (snd (main py w lines))"
proof (intro conjI impI)
  show i: "later_symptoms_kept \<lparr>selected = [], remaining = [], out = ms\<rparr>" for ms
    by (simp add: later_symptoms_kept_def)
  show "later_symptoms_kept (snd (step_token py w ns st tok))" if "later_symptoms_kept st"
    using submit_later_symptoms_kept say_later_symptoms_kept that by (rule step_token_keeps)
  have "later_symptoms_kept (say Banner \<lparr>selected = [], remaining = [], out = []\<rparr>)"
    using i by (rule say_later_symptoms_kept)
  with submit_later_symptoms_kept say_later_symptoms_kept
  show "later_symptoms_kept (snd (main py w lines))"
    unfolding main_def by (rule main_loop_keeps)
qed

theorem pool_keeps_later_symptoms_witness:
  "later_symptoms_kept engine_example
   \<and> selected (snd (step_token python_example wiki_example (checklist engine_example)
        engine_example (str ''4'')))
       = [str ''fever'', str ''rash'']
   \<and> later_symptoms_kept
        (snd (step_token python_example wiki_example (checklist engine_example)
          engine_example (str ''4'')))
   \<and> selected (snd (main python_example wiki_example [str ''chills'', str ''cough rash'']))
       = [str ''chills'', str ''cough'', str ''rash'']
   \<and> map name
        (remaining (snd (main python_example wiki_example [str ''chills'', str ''cough rash''])))
       = [str ''Measles'', str ''Stub'']
   \<and> later_symptoms_kept
        (snd (main python_example wiki_example [str ''chills'', str ''cough rash'']))"
proof -
  have k: "later_symptoms_kept engine_example"
    by code_simp
  have s: "selected (snd (step_token python_example wiki_example (checklist engine_example)
        engine_example (str ''4'')))
       = [str ''fever'', str ''rash'']"
    by code_simp
  have m: "selected (snd (main python_example wiki_example [str ''chills'', str ''cough rash'']))
       = [str ''chills'', str ''cough'', str ''rash'']"
    by code_simp
  have r: "map name
        (remaining (snd (main python_example wiki_example [str ''chills'', str ''cough rash''])))
       = [str ''Measles'', str ''Stub'']"
    by code_simp
  show ?thesis
    using pool_keeps_later_symptoms
      [where ms = "[]" and st = engine_example and py = python_example and w = wiki_example
        and ns = "checklist engine_example" and tok = "str ''4''"
        and lines = "[str ''chills'', str ''cough rash'']"] k s m r
    by simp
qed

text \<open>
  Claim C4: the termination conditions are evaluated before a line is read, in this
  order. When the checklist is empty and a symptom has been selected, a pool of exactly
  one candidate ends the run as Diagnosed with that candidate, and any other non-empty
  pool ends it as Ambiguous with all the remaining names; no input is consumed, whatever
  the input is.
\<close>

theorem termination_before_prompt:
  assumes "checklist st = []" and "selected st \<noteq> []"
  shows "(length (remaining st) = 1 \<longrightarrow>
            main_loop py w lines st
              = (Diagnosed (name (remaining st ! 0)),
                 say (Final_diagnosis (name (remaining st ! 0))) st))
         \<and> (remaining st \<noteq> [] \<and> length (remaining st) \<noteq> 1 \<longrightarrow>
            main_loop py w lines st
              = (Ambiguous (map name (remaining st)),
                 say (Unable_to_narrow (map name (remaining st))) st))"
  using assms by (cases lines) (simp_all add: termination_check_def)

theorem termination_before_prompt_witness:
  "fst (main_loop python_example wiki_example [] engine_single) = Diagnosed (str ''Measles'')
   \<and> fst (main_loop python_example wiki_example [str ''itch''] engine_tied)
       = Ambiguous [str ''Measles'', str ''Stub'']"
proof -
  have c1: "checklist engine_single = []" and s1: "selected engine_single \<noteq> []"
    and l1: "length (remaining engine_single) = 1"
    and n1: "name (remaining engine_single ! 0) = str ''Measles''"
    by code_simp+
  have c2: "checklist engine_tied = []" and s2: "selected engine_tied \<noteq> []"
    and l2: "remaining engine_tied \<noteq> [] \<and> length (remaining engine_tied) \<noteq> 1"
    and n2: "map name (remaining engine_tied) = [str ''Measles'', str ''Stub'']"
    by code_simp+
  show ?thesis
    using termination_before_prompt
        [OF c1 s1, where py = python_example and w = wiki_example and lines = "[]"]
      termination_before_prompt
        [OF c2 s2, where py = python_example and w = wiki_example and lines = "[str ''itch'']"]
      l1 n1 l2 n2
    by simp
qed

text \<open>
  Claim C5: once a symptom has been selected, the pool after a token is a subset of the
  pool before it and is not longer; the same holds for a batch of tokens and for all the
  rounds that follow.
\<close>

theorem pool_monotone:
  assumes "selected st \<noteq> []"
  shows "set (remaining (snd (step_token py w ns st tok))) \<subseteq> set (remaining st)
         \<and> length (remaining (snd (step_token py w ns st tok))) \<le> length (remaining st)
         \<and> set (remaining (snd (process_tokens py w ns st toks))) \<subseteq> set (remaining st)
         \<and> length (remaining (snd (process_tokens py w ns st toks))) \<le> length (remaining st)
         \<and> set (remaining (snd (main_loop py w lines st))) \<subseteq> set (remaining st)
         \<and> length (remaining (snd (main_loop py w lines st))) \<le> length (remaining st)"
proof -
  let ?P = "\<lambda>s. selected s \<noteq> [] \<and> set (remaining s) \<subseteq> set (remaining st)
                \<and> length (remaining s) \<le> length (remaining st)"
  have sub: "\<And>s symptom. ?P s \<Longrightarrow> ?P (snd (submit py w s symptom))"
    by (rule submit_pool_shrinks)
  have pr: "\<And>s m. ?P s \<Longrightarrow> ?P (say m s)"
    by (simp add: say_def)
  have st: "?P st" using assms by simp
  have "?P (snd (step_token py w ns st tok))" using sub pr st by (rule step_token_keeps)
  moreover have "?P (snd (process_tokens py w ns st toks))"
    using sub pr st by (rule process_tokens_keeps)
  moreover have "?P (snd (main_loop py w lines st))" using sub pr st by (rule main_loop_keeps)
  ultimately show ?thesis by simp
qed

theorem pool_monotone_witness:
  "selected engine_example \<noteq> []
   \<and> map name (remaining (snd (process_tokens python_example wiki_example [] engine_example
        [str ''rash'', str ''itch''])))
       = [str ''Stub'']
   \<and> length (remaining (snd (process_tokens python_example wiki_example [] engine_example
        [str ''rash'', str ''itch''])))
       \<le> length (remaining engine_example)"
proof -
  have h: "selected engine_example \<noteq> []" by code_simp
  have e: "map name (remaining (snd (process_tokens python_example wiki_example [] engine_example
        [str ''rash'', str ''itch''])))
       = [str ''Stub'']" by code_simp
  show ?thesis
    using pool_monotone
      [OF h, where py = python_example and w = wiki_example and ns = "[]"
        and tok = "str ''rash''" and toks = "[str ''rash'', str ''itch'']" and lines = "[]"] h e
    by simp
qed

text \<open>
  Claim C6: once a symptom has been selected, a candidate without symptoms that is in the
  pool is still in the pool after any token, after any batch of tokens and after all the
  rounds that follow.
\<close>

theorem empty_symptoms_survive:
  assumes "selected st \<noteq> []" and "c \<in> set (remaining st)" and "symptoms c = []"
  shows "c \<in> set (remaining (snd (step_token py w ns st tok)))
         \<and> c \<in> set (remaining (snd (process_tokens py w ns st toks)))
         \<and> c \<in> set (remaining (snd (main_loop py w lines st)))"
proof -
  let ?P = "\<lambda>s. selected s \<noteq> [] \<and> c \<in> set (remaining s)"
  have sub: "\<And>s symptom. ?P s \<Longrightarrow> ?P (snd (submit py w s symptom))"
    using assms(3) by (auto simp: submit_def say_def Let_def filter_empty_conv)
  have pr: "\<And>s m. ?P s \<Longrightarrow> ?P (say m s)"
    by (simp add: say_def)
  have st: "?P st" using assms by simp
  have "?P (snd (step_token py w ns st tok))" using sub pr st by (rule step_token_keeps)
  moreover have "?P (snd (process_tokens py w ns st toks))"
    using sub pr st by (rule process_tokens_keeps)
  moreover have "?P (snd (main_loop py w lines st))" using sub pr st by (rule main_loop_keeps)
  ultimately show ?thesis by simp
qed

theorem empty_symptoms_survive_witness:
  "selected engine_example \<noteq> []
   \<and> \<lparr>name = str ''Stub'', symptoms = []\<rparr> \<in> set (remaining engine_example)
   \<and> \<lparr>name = str ''Stub'', symptoms = []\<rparr>
       \<in> set (remaining (snd (process_tokens python_example wiki_example [] engine_example
            [str ''rash'', str ''itch''])))"
proof -
  have h: "selected engine_example \<noteq> []" by code_simp
  have m: "\<lparr>name = str ''Stub'', symptoms = []\<rparr> \<in> set (remaining engine_example)"
    by code_simp
  have s: "symptoms \<lparr>name = str ''Stub'', symptoms = []\<rparr> = []" by simp
  show ?thesis
    using empty_symptoms_survive
      [OF h m s, where py = python_example and w = wiki_example and ns = "[]"
        and tok = "str ''rash''" and toks = "[str ''rash'', str ''itch'']" and lines = "[]"] h m
    by simp
qed

text \<open>
  Claim C7: the checklist of a state, which each round computes before it reads its
  line, is sorted and free of duplicates, its elements are exactly the symptoms of the
  candidates of the pool that are not selected, and none of them is selected.
\<close>

theorem checklist_sorted_unseen:
  "sorted (checklist st) \<and> distinct (checklist st)
   \<and> set (checklist st)
       = {s. \<exists>c \<in> set (remaining st). s \<in> set (symptoms c) \<and> s \<notin> set (selected st)}
   \<and> set (checklist st) \<inter> set (selected st) = {}"
  by (auto simp: checklist_def)

theorem checklist_sorted_unseen_witness:
  "checklist engine_example = [str ''cough'', str ''fatigue'', str ''headache'', str ''rash'']
   \<and> set [str ''cough'', str ''fatigue'', str ''headache'', str ''rash'']
       \<inter> set (selected engine_example) = {}"
proof -
  have c: "checklist engine_example
      = [str ''cough'', str ''fatigue'', str ''headache'', str ''rash'']"
    by code_simp
  have "set (checklist engine_example) \<inter> set (selected engine_example) = {}"
    using checklist_sorted_unseen [of engine_example] by (elim conjE)
  then show ?thesis using c by simp
qed

text \<open>
  A token of digits that has a value outside the checklist, and a token that resolves to
  a symptom already selected, each only add a warning to what is printed: the selected
  symptoms and the pool stay as they are, and the loop goes on with the remaining tokens
  of the batch.
\<close>

lemma valued_numbers_and_duplicates_are_local:
  "(str_isdigit py tok \<and> selected st \<noteq> [] \<and> ns \<noteq> [] \<and> str_int py tok = Inr n
      \<and> (n < 1 \<or> int (length ns) < n) \<longrightarrow>
      step_token py w ns st tok = (Next, say (Invalid_number tok) st)
      \<and> process_tokens py w ns st (tok # toks)
          = process_tokens py w ns (say (Invalid_number tok) st) toks)
   \<and> (resolve_token py ns st tok = Inr (Some symptom) \<and> symptom \<in> set (selected st) \<longrightarrow>
      step_token py w ns st tok = (Next, say (Already_added symptom) st)
      \<and> process_tokens py w ns st (tok # toks)
          = process_tokens py w ns (say (Already_added symptom) st) toks)
   \<and> selected (say m st) = selected st \<and> remaining (say m st) = remaining st
   \<and> out (say m st) = out st @ [m]"
proof (intro conjI impI)
  assume a: "str_isdigit py tok \<and> selected st \<noteq> [] \<and> ns \<noteq> [] \<and> str_int py tok = Inr n
      \<and> (n < 1 \<or> int (length ns) < n)"
  then have "resolve_token py ns st tok = Inr None"
    by (auto simp: resolve_token_def Let_def)
  then show s: "step_token py w ns st tok = (Next, say (Invalid_number tok) st)"
    by (simp add: step_token_def)
  show "process_tokens py w ns st (tok # toks)
      = process_tokens py w ns (say (Invalid_number tok) st) toks"
    by (simp add: s)
next
  assume a: "resolve_token py ns st tok = Inr (Some symptom) \<and> symptom \<in> set (selected st)"
  then have "selected st \<noteq> []" by auto
  with a show s: "step_token py w ns st tok = (Next, say (Already_added symptom) st)"
    by (simp add: step_token_def submit_def)
  show "process_tokens py w ns st (tok # toks)
      = process_tokens py w ns (say (Already_added symptom) st) toks"
    by (simp add: s)
qed (simp_all add: say_def)

text \<open>
  A token of digits to which \<open>int\<close> gives no value ends the run with the exception:
  nothing is printed for it and the remaining tokens of the batch are not read.
\<close>

lemma digits_without_value_abort:
  assumes "str_isdigit py tok" and "selected st \<noteq> []" and "ns \<noteq> []"
    and "str_int py tok = Inl e"
  shows "process_tokens py w ns st (tok # toks) = (Stop (Raised e), st)"
  using assms by (simp add: step_token_def resolve_token_def)

lemma list_all_replicate: "list_all P (replicate n x) = (n = 0 \<or> P x)"
  by (induction n) auto

text \<open>
  Claim C8: a numeric token that is no valid index and a symptom submitted again are
  local and not fatal. The code does not do this for every numeric token. The
  superscript two is a digit for \<open>isdigit\<close> and has no value for \<open>int\<close>, and so has a
  token of 4301 digits \<open>9\<close>: \<open>int(tok)\<close> raises \<open>ValueError\<close> before the range is
  tested. After the first symptom \<open>fever\<close>, the line of the superscript two and \<open>cough\<close>
  ends the run with that exception: no warning is printed and \<open>cough\<close> is not processed.
\<close>

theorem superscript_digit_aborts:
  "str_isdigit python_example [0xB2]
   \<and> str_int python_example [0xB2] = Inl ValueError
   \<and> str_isdigit python_example (replicate 4301 (cp (CHR ''9'')))
   \<and> str_int python_example (replicate 4301 (cp (CHR ''9''))) = Inl ValueError
   \<and> main python_example wiki_example [str ''fever'', 0xB2 # str '' cough'', str ''rash'']
       = (Raised ValueError,
          \<lparr>selected = [str ''fever''],
           remaining =
             [\<lparr>name = str ''Flu'',
               symptoms = [str ''fever'', str ''cough'', str ''headache'', str ''fatigue'']\<rparr>,
              \<lparr>name = str ''Measles'',
               symptoms = [str ''fever'', str ''rash'', str ''cough'']\<rparr>,
              \<lparr>name = str ''Stub'', symptoms = []\<rparr>],
           out = [Banner, Added_loaded (str ''fever'') 3, Blank_line,
                  Checklist [str ''cough'', str ''fatigue'', str ''headache'', str ''rash'']]\<rparr>)"
proof (intro conjI)
  show "str_isdigit python_example [0xB2]"
    by code_simp
  show "str_int python_example [0xB2] = Inl ValueError"
    by code_simp
  show "str_isdigit python_example (replicate 4301 (cp (CHR ''9'')))"
    by (simp add: python_example_def isdigit_example_def list_all_replicate cp_def)
  show "str_int python_example (replicate 4301 (cp (CHR ''9''))) = Inl ValueError"
    by (simp add: python_example_def int_example_def)
  show "main python_example wiki_example [str ''fever'', 0xB2 # str '' cough'', str ''rash'']
       = (Raised ValueError,
          \<lparr>selected = [str ''fever''],
           remaining =
             [\<lparr>name = str ''Flu'',
               symptoms = [str ''fever'', str ''cough'', str ''headache'', str ''fatigue'']\<rparr>,
              \<lparr>name = str ''Measles'',
               symptoms = [str ''fever'', str ''rash'', str ''cough'']\<rparr>,
              \<lparr>name = str ''Stub'', symptoms = []\<rparr>],
           out = [Banner, Added_loaded (str ''fever'') 3, Blank_line,
                  Checklist [str ''cough'', str ''fatigue'', str ''headache'', str ''rash'']]\<rparr>)"
    by code_simp
qed

text \<open>
  Claim C9: in a round that reads the tokens \<open>pre @ tok # post\<close>, a number \<open>tok\<close> within
  range is resolved in the checklist of the state \<open>st\<close> at the head of the round, not in
  the checklist of the state \<open>st1\<close> that the earlier tokens \<open>pre\<close> have produced; the
  later tokens \<open>post\<close> use the same checklist, and the next round starts from the
  resulting state and computes its own.
\<close>

theorem numbers_index_round_checklist:
  assumes "termination_check st = None"
    and "str_lower py (strip whitespace line) \<noteq> str ''done''"
    and "tokens_of (str_lower py (strip whitespace line)) = pre @ tok # post"
    and "process_tokens py w (checklist st) (show_checklist st) pre = (Next, st1)"
    and "str_isdigit py tok" and "str_int py tok = Inr n"
    and "1 \<le> n" and "n \<le> int (length (checklist st))"
    and "selected st1 \<noteq> []"
  shows "main_loop py w (line # lines) st =
     (case submit py w st1 (checklist st ! nat (n - 1)) of
        (Stop v, st2) \<Rightarrow> (v, st2)
      | (Next, st2) \<Rightarrow>
          (case process_tokens py w (checklist st) st2 post of
             (Stop v, st3) \<Rightarrow> (v, st3)
           | (Next, st3) \<Rightarrow> main_loop py w lines (say Blank_line st3)))"
proof -
  from assms(7,8) have ne: "checklist st \<noteq> []" by auto
  have r: "resolve_token py (checklist st) st1 tok = Inr (Some (checklist st ! nat (n - 1)))"
    using assms(5-9) ne by (simp add: resolve_token_def Let_def)
  have s: "step_token py w (checklist st) st1 tok = submit py w st1 (checklist st ! nat (n - 1))"
    by (simp add: step_token_def r)
  have "process_tokens py w (checklist st) (show_checklist st) (pre @ tok # post) =
     (case submit py w st1 (checklist st ! nat (n - 1)) of
        (Stop v, st2) \<Rightarrow> (Stop v, st2)
      | (Next, st2) \<Rightarrow> process_tokens py w (checklist st) st2 post)"
    by (simp add: process_tokens_append assms(4) s)
  then show ?thesis
    using assms(1-3) by (simp add: Let_def split: prod.splits flow.splits)
qed

theorem numbers_index_round_checklist_witness:
  "checklist engine_example ! 1 = str ''fatigue''
   \<and> checklist (snd (process_tokens python_example wiki_example (checklist engine_example)
        (show_checklist engine_example) [str ''1''])) ! 1 = str ''headache''
   \<and> selected (snd (main_loop python_example wiki_example [str ''1 2''] engine_example))
       = [str ''fever'', str ''cough'', str ''fatigue'']"
proof -
  define st1 where "st1 = snd (process_tokens python_example wiki_example
        (checklist engine_example) (show_checklist engine_example) [str ''1''])"
  have a1: "termination_check engine_example = None" by code_simp
  have a2: "str_lower python_example (strip whitespace (str ''1 2'')) \<noteq> str ''done''"
    by code_simp
  have a3: "tokens_of (str_lower python_example (strip whitespace (str ''1 2'')))
      = [str ''1''] @ str ''2'' # []"
    by code_simp
  have a4: "process_tokens python_example wiki_example (checklist engine_example)
        (show_checklist engine_example) [str ''1''] = (Next, st1)"
    unfolding st1_def by code_simp
  have a5: "str_isdigit python_example (str ''2'')" by code_simp
  have a6: "str_int python_example (str ''2'') = Inr 2" by code_simp
  have a7: "(1::int) \<le> 2" by simp
  have a8: "2 \<le> int (length (checklist engine_example))" by code_simp
  have a9: "selected st1 \<noteq> []" unfolding st1_def by code_simp
  have m: "main_loop python_example wiki_example [str ''1 2''] engine_example =
     (case submit python_example wiki_example st1 (checklist engine_example ! nat (2 - 1)) of
        (Stop v, st2) \<Rightarrow> (v, st2)
      | (Next, st2) \<Rightarrow>
          (case process_tokens python_example wiki_example (checklist engine_example) st2 [] of
             (Stop v, st3) \<Rightarrow> (v, st3)
           | (Next, st3) \<Rightarrow> main_loop python_example wiki_example [] (say Blank_line st3)))"
    by (rule numbers_index_round_checklist [OF a1 a2 a3 a4 a5 a6 a7 a8 a9])
  have r: "selected (snd
     (case submit python_example wiki_example st1 (checklist engine_example ! nat (2 - 1)) of
        (Stop v, st2) \<Rightarrow> (v, st2)
      | (Next, st2) \<Rightarrow>
          (case process_tokens python_example wiki_example (checklist engine_example) st2 [] of
             (Stop v, st3) \<Rightarrow> (v, st3)
           | (Next, st3) \<Rightarrow> main_loop python_example wiki_example [] (say Blank_line st3))))
      = [str ''fever'', str ''cough'', str ''fatigue'']"
    unfolding st1_def by code_simp
  have c1: "checklist engine_example ! 1 = str ''fatigue''" by code_simp
  have c2: "checklist st1 ! 1 = str ''headache''" unfolding st1_def by code_simp
  show ?thesis
    unfolding st1_def [symmetric] using c1 c2 r unfolding m [symmetric] by simp
qed

text \<open>
  Claim C10: when the first line is the command \<open>done\<close> (in any case, with white space
  around it), the run ends behind the loop with the pool still empty: the shortlist
  branch with no names, neither a diagnosis nor \<open>sys.exit(1)\<close>.
\<close>

theorem done_at_first_prompt:
  assumes "str_lower py (strip whitespace line) = str ''done''"
  shows "main py w (line # lines)
           = (Done_shortlist [],
              \<lparr>selected = [], remaining = [], out = [Banner, Final_shortlist []]\<rparr>)"
  using assms
  by (simp add: main_def termination_check_def show_checklist_def finish_def say_def Let_def)

theorem done_at_first_prompt_witness:
  "str_lower python_example (strip whitespace (str '' Done '')) = str ''done''
   \<and> main python_example wiki_example [str '' Done '', str ''fever'']
       = (Done_shortlist [],
          \<lparr>selected = [], remaining = [], out = [Banner, Final_shortlist []]\<rparr>)"
proof -
  have h: "str_lower python_example (strip whitespace (str '' Done '')) = str ''done''"
    by code_simp
  show ?thesis
    using done_at_first_prompt
      [OF h, where w = wiki_example and lines = "[str ''fever'']"] h
    by simp
qed

end
